theory Spec2Isabelle
  imports Main "HOL-Library.Word"
begin

section \<open>Data model of LeituraPulsos.ino\<close>

text \<open>
  The sketch runs on an ESP32-S3, where \<^verbatim>\<open>unsigned long\<close> is a 32-bit unsigned
  integer and \<^verbatim>\<open>int\<close> a 32-bit signed one. The \<^verbatim>\<open>unsigned long\<close> globals are
  modelled as \<open>32 word\<close>, so that \<open>+\<close>, \<open>-\<close> and \<open>*\<close> wrap around as they do on
  the target. The \<^verbatim>\<open>int\<close> globals and locals (\<^verbatim>\<open>historyIndex\<close>, \<^verbatim>\<open>validCount\<close>) are
  modelled as \<open>int\<close>: every arithmetic operation on them is performed on a value
  between 0 and 5, far from overflow.
\<close>

type_synonym u32 = "32 word"

definition DEBOUNCE_TIME_US_MIN :: u32 where
  "DEBOUNCE_TIME_US_MIN = 100"

definition DEBOUNCE_TIME_US_MAX :: u32 where
  "DEBOUNCE_TIME_US_MAX = 5000"

definition DEBOUNCE_TIME_US_DEFAULT :: u32 where
  "DEBOUNCE_TIME_US_DEFAULT = 1000"

definition AUTO_RESET_ENABLED :: bool where
  "AUTO_RESET_ENABLED = True"

text \<open>
  The global variables of the sketch that the interrupt routine and the reset
  routines read or write. \<^verbatim>\<open>pulseHistory\<close> is a C array of five elements; it is a list
  here, and \<open>wf_state\<close> below records its fixed size.
\<close>

record state =
  pulseCount :: u32
  lastPulseTime :: u32
  pulseInterval :: u32
  newPulseReceived :: bool
  currentDebounceTime :: u32
  pulseHistory :: "u32 list"
  historyIndex :: int
  lastResetTime :: u32

definition wf_state :: "state \<Rightarrow> bool" where
  "wf_state s = (length (pulseHistory s) = 5)"

text \<open>The values the globals are initialised with at their declarations.\<close>

definition initial_state :: state where
  "initial_state =
     \<lparr> pulseCount = 0, lastPulseTime = 0, pulseInterval = 0,
       newPulseReceived = False,
       currentDebounceTime = DEBOUNCE_TIME_US_DEFAULT,
       pulseHistory = [0, 0, 0, 0, 0], historyIndex = 0,
       lastResetTime = 0 \<rparr>"

text \<open>
  Run-time faults of the C code, as values: an integer division by zero (a trap on the
  target) and a write outside the bounds of \<^verbatim>\<open>pulseHistory\<close> (undefined behaviour).
\<close>

datatype fault = DivideByZero | IndexOutOfBounds

section \<open>updateAdaptiveDebounce\<close>

text \<open>
  The counting loop
  \<^verbatim>\<open>for (int i = 0; i < 5; i++) if (pulseHistory[i] > 0) { sum += pulseHistory[i]; validCount++; }\<close>
  as a recursion on the loop variable; it returns \<open>(validCount, sum)\<close> (the local \<^verbatim>\<open>sum\<close> is written \<open>sum_acc\<close>).
\<close>

function history_loop :: "u32 list \<Rightarrow> nat \<Rightarrow> int \<Rightarrow> u32 \<Rightarrow> int \<times> u32" where
  "history_loop h i validCount sum_acc =
     (if i < 5 then
        (if h ! i > 0 then history_loop h (i + 1) (validCount + 1) (sum_acc + h ! i)
         else history_loop h (i + 1) validCount sum_acc)
      else (validCount, sum_acc))"
  by pat_completeness auto
termination
  by (relation "measure (\<lambda>(h, i, validCount, sum_acc). 5 - i)") auto

declare history_loop.simps [simp del]

text \<open>
  The locals of the function body. In \<^verbatim>\<open>sum / validCount\<close> the \<^verbatim>\<open>int\<close> operand is
  converted to \<^verbatim>\<open>unsigned long\<close> before the unsigned division.
\<close>

definition averageInterval :: "u32 \<Rightarrow> int \<Rightarrow> u32" where
  "averageInterval sum_acc validCount = sum_acc div (word_of_int validCount)"

definition newDebounce :: "u32 \<Rightarrow> u32" where
  "newDebounce avg = avg div 12"

definition clamp_debounce :: "u32 \<Rightarrow> u32" where
  "clamp_debounce d =
     (if d < DEBOUNCE_TIME_US_MIN then DEBOUNCE_TIME_US_MIN
      else if d > DEBOUNCE_TIME_US_MAX then DEBOUNCE_TIME_US_MAX
      else d)"

definition smooth :: "u32 \<Rightarrow> u32 \<Rightarrow> u32" where
  "smooth cur d = (cur * 7 + d * 3) div 10"

definition updateAdaptiveDebounce :: "state \<Rightarrow> fault + state" where
  "updateAdaptiveDebounce s =
     (case history_loop (pulseHistory s) 0 0 0 of
        (validCount, sum_acc) \<Rightarrow>
          if validCount \<ge> 2 then
            (if (word_of_int validCount :: u32) = 0 then Inl DivideByZero
             else Inr (s\<lparr>currentDebounceTime :=
                    smooth (currentDebounceTime s)
                      (clamp_debounce (newDebounce (averageInterval sum_acc validCount)))\<rparr>))
          else Inr s)"

section \<open>pulseInterrupt\<close>

text \<open>
  The interrupt service routine. The reading of \<^verbatim>\<open>micros()\<close> is the parameter
  \<open>currentTime\<close>. The subtraction is unsigned and wraps around.
\<close>

definition pulseInterrupt :: "state \<Rightarrow> u32 \<Rightarrow> fault + state" where
  "pulseInterrupt s currentTime =
     (if currentTime - lastPulseTime s > currentDebounceTime s then
        (let s1 = s\<lparr>pulseInterval := currentTime - lastPulseTime s\<rparr>;
             s2 = s1\<lparr>lastPulseTime := currentTime\<rparr>
         in if 0 \<le> historyIndex s2 \<and> historyIndex s2 < 5 then
              (let s3 = s2\<lparr>pulseHistory :=
                          (pulseHistory s2)[nat (historyIndex s2) := pulseInterval s2]\<rparr>;
                   s4 = s3\<lparr>historyIndex := (historyIndex s3 + 1) mod 5\<rparr>
               in case updateAdaptiveDebounce s4 of
                    Inl e \<Rightarrow> Inl e
                  | Inr s5 \<Rightarrow>
                      Inr (s5\<lparr>pulseCount := pulseCount s5 + 1,
                               newPulseReceived := True\<rparr>))
            else Inl IndexOutOfBounds)
      else Inr s)"

section \<open>resetCounter and autoResetCounter\<close>

text \<open>The loop \<^verbatim>\<open>for (int i = 0; i < 5; i++) pulseHistory[i] = 0;\<close>.\<close>

function clear_loop :: "u32 list \<Rightarrow> nat \<Rightarrow> u32 list" where
  "clear_loop h i = (if i < 5 then clear_loop (h[i := 0]) (i + 1) else h)"
  by pat_completeness auto
termination
  by (relation "measure (\<lambda>(h, i). 5 - i)") auto

declare clear_loop.simps [simp del]

text \<open>
  The critical section of \<^verbatim>\<open>autoResetCounter\<close>. The report printed on the serial port
  after it reads only the saved locals and changes no global.
\<close>

definition autoResetCounter :: "state \<Rightarrow> state" where
  "autoResetCounter s =
     s\<lparr> pulseCount := 0, lastPulseTime := 0, pulseInterval := 0,
        newPulseReceived := False,
        currentDebounceTime := DEBOUNCE_TIME_US_DEFAULT,
        historyIndex := 0,
        pulseHistory := clear_loop (pulseHistory s) 0 \<rparr>"

text \<open>
  The critical section of \<^verbatim>\<open>resetCounter\<close>; \<open>now\<close> is the reading of \<^verbatim>\<open>millis()\<close>.
\<close>

definition resetCounter :: "state \<Rightarrow> u32 \<Rightarrow> state" where
  "resetCounter s now =
     (let s1 = s\<lparr> pulseCount := 0, lastPulseTime := 0, pulseInterval := 0,
                  newPulseReceived := False,
                  currentDebounceTime := DEBOUNCE_TIME_US_DEFAULT,
                  historyIndex := 0,
                  pulseHistory := clear_loop (pulseHistory s) 0 \<rparr>
      in if AUTO_RESET_ENABLED then s1\<lparr>lastResetTime := now\<rparr> else s1)"

section \<open>Notions used by the properties\<close>

text \<open>
  The specification's \<open>valid_count\<close>, in its own words: the number of non-zero entries
  of the history. It is compared below with the \<^verbatim>\<open>validCount\<close> the loop computes.
\<close>

definition valid_count :: "u32 list \<Rightarrow> nat" where
  "valid_count h = length (filter (\<lambda>x. x \<noteq> 0) h)"

text \<open>
  The invariant of the debounce state: the threshold lies within
  \<open>[DEBOUNCE_TIME_US_MIN, DEBOUNCE_TIME_US_MAX]\<close> and the write index within \<open>[0, 5)\<close>.
\<close>

definition debounce_inv :: "state \<Rightarrow> bool" where
  "debounce_inv s =
     (DEBOUNCE_TIME_US_MIN \<le> currentDebounceTime s \<and>
      currentDebounceTime s \<le> DEBOUNCE_TIME_US_MAX \<and>
      0 \<le> historyIndex s \<and> historyIndex s < 5)"

text \<open>
  The capture and debounce part of the state: every global but the bookkeeping of the
  automatic reset.
\<close>

definition capture_debounce ::
  "state \<Rightarrow> u32 \<times> u32 \<times> u32 \<times> bool \<times> u32 \<times> u32 list \<times> int" where
  "capture_debounce s =
     (pulseCount s, lastPulseTime s, pulseInterval s, newPulseReceived s,
      currentDebounceTime s, pulseHistory s, historyIndex s)"

text \<open>
  A sequence of edges, given by the readings of \<^verbatim>\<open>micros()\<close> at each interrupt:
  \<open>pulseInterrupt_seq\<close> returns the state after every edge, and stops at the first
  fault. \<open>exceeds_threshold\<close> says that every edge of the sequence arrives later than the
  threshold in effect at its arrival, counted from the last accepted edge.
\<close>

fun pulseInterrupt_seq :: "state \<Rightarrow> u32 list \<Rightarrow> fault + state list" where
  "pulseInterrupt_seq s [] = Inr []"
| "pulseInterrupt_seq s (t # ts) =
     (case pulseInterrupt s t of
        Inl e \<Rightarrow> Inl e
      | Inr s' \<Rightarrow>
          (case pulseInterrupt_seq s' ts of
             Inl e \<Rightarrow> Inl e
           | Inr ss \<Rightarrow> Inr (s' # ss)))"

fun exceeds_threshold :: "state \<Rightarrow> u32 list \<Rightarrow> bool" where
  "exceeds_threshold s [] = True"
| "exceeds_threshold s (t # ts) =
     (t - lastPulseTime s > currentDebounceTime s \<and>
      (case pulseInterrupt s t of
         Inl e \<Rightarrow> True
       | Inr s' \<Rightarrow> exceeds_threshold s' ts))"

text \<open>
  What the specification says an accepted edge does, field by field: \<open>a\<close> is the state
  before the edge, \<open>t\<close> its timestamp and \<open>b\<close> the state after it.
\<close>

definition accepted_edge :: "state \<Rightarrow> u32 \<Rightarrow> state \<Rightarrow> bool" where
  "accepted_edge a t b =
     (pulseCount b = pulseCount a + 1 \<and>
      pulseInterval b = t - lastPulseTime a \<and>
      lastPulseTime b = t \<and>
      pulseHistory b = (pulseHistory a)[nat (historyIndex a) := t - lastPulseTime a] \<and>
      historyIndex b = (historyIndex a + 1) mod 5 \<and>
      newPulseReceived b \<and>
      lastResetTime b = lastResetTime a \<and>
      updateAdaptiveDebounce
        (a\<lparr>pulseInterval := t - lastPulseTime a, lastPulseTime := t,
           pulseHistory := (pulseHistory a)[nat (historyIndex a) := t - lastPulseTime a],
           historyIndex := (historyIndex a + 1) mod 5\<rparr>)
        = Inr (b\<lparr>pulseCount := pulseCount a, newPulseReceived := newPulseReceived a\<rparr>))"


text \<open>A state in the middle of a measurement, used as a concrete input below.\<close>

definition busy_state :: state where
  "busy_state =
     \<lparr> pulseCount = 7, lastPulseTime = 90000, pulseInterval = 12000,
       newPulseReceived = True, currentDebounceTime = 940,
       pulseHistory = [12000, 12100, 11900, 12000, 12050], historyIndex = 2,
       lastResetTime = 30000 \<rparr>"

section \<open>Facts about the two loops\<close>

lemma history_loop_step_pos:
  "i < 5 \<Longrightarrow> h ! i > 0 \<Longrightarrow>
   history_loop h i v a = history_loop h (i + 1) (v + 1) (a + h ! i)"
  by (subst history_loop.simps) simp

lemma history_loop_step_zero:
  "i < 5 \<Longrightarrow> \<not> h ! i > 0 \<Longrightarrow> history_loop h i v a = history_loop h (i + 1) v a"
  by (subst history_loop.simps) simp

lemma history_loop_exit:
  "\<not> i < 5 \<Longrightarrow> history_loop h i v a = (v, a)"
  by (subst history_loop.simps) simp

lemma history_loop_drop:
  "i \<le> 5 \<Longrightarrow> length h = 5 \<Longrightarrow>
   history_loop h i v a = (v + int (valid_count (drop i h)), a + sum_list (drop i h))"
proof (induction h i v a rule: history_loop.induct)
  case (1 h i v a)
  show ?case
  proof (cases "i < 5")
    case True
    then have d: "drop i h = h ! i # drop (Suc i) h"
      using "1.prems" by (simp add: Cons_nth_drop_Suc)
    show ?thesis
    proof (cases "h ! i > 0")
      case pos: True
      then have nz: "h ! i \<noteq> 0" by auto
      have "history_loop h i v a =
              (v + 1 + int (valid_count (drop (i + 1) h)), a + h ! i + sum_list (drop (i + 1) h))"
        using "1.IH"(1) [OF True pos] True "1.prems"
        by (simp add: history_loop_step_pos [OF True pos])
      then show ?thesis using d nz by (simp add: valid_count_def add.assoc)
    next
      case npos: False
      then have z: "h ! i = 0" by (simp add: word_gt_0)
      have "history_loop h i v a =
              (v + int (valid_count (drop (i + 1) h)), a + sum_list (drop (i + 1) h))"
        using "1.IH"(2) [OF True npos] True "1.prems"
        by (simp add: history_loop_step_zero [OF True npos])
      then show ?thesis using d z by (simp add: valid_count_def)
    qed
  next
    case False
    then show ?thesis using "1.prems" by (simp add: history_loop_exit valid_count_def)
  qed
qed

lemma history_loop_wf:
  "length h = 5 \<Longrightarrow> history_loop h 0 0 0 = (int (valid_count h), sum_list h)"
  using history_loop_drop [of 0 h 0 0] by simp

lemma history_loop_bounds:
  "v \<le> fst (history_loop h i v a) \<and> fst (history_loop h i v a) \<le> v + int (5 - i)"
proof (induction h i v a rule: history_loop.induct)
  case (1 h i v a)
  show ?case
  proof (cases "i < 5")
    case True
    show ?thesis
    proof (cases "h ! i > 0")
      case pos: True
      show ?thesis
        using "1.IH"(1) [OF True pos] True
        by (auto simp: history_loop_step_pos [OF True pos])
    next
      case npos: False
      show ?thesis
        using "1.IH"(2) [OF True npos] True
        by (auto simp: history_loop_step_zero [OF True npos])
    qed
  next
    case False
    then show ?thesis by (simp add: history_loop_exit)
  qed
qed

lemma validCount_range:
  "history_loop h 0 0 0 = (vc, sm) \<Longrightarrow> 0 \<le> vc \<and> vc \<le> 5"
  using history_loop_bounds [of 0 h 0 0] by simp

lemma word_of_int_validCount:
  assumes "2 \<le> vc" "vc \<le> 5"
  shows "(word_of_int vc :: u32) \<noteq> 0"
proof -
  have "vc = 2 \<or> vc = 3 \<or> vc = 4 \<or> vc = 5" using assms by arith
  then show ?thesis by auto
qed

lemma clear_loop_take:
  "i \<le> 5 \<Longrightarrow> length h = 5 \<Longrightarrow> clear_loop h i = take i h @ replicate (5 - i) 0"
proof (induction h i rule: clear_loop.induct)
  case (1 h i)
  show ?case
  proof (cases "i < 5")
    case True
    have "clear_loop h i = clear_loop (h[i := 0]) (i + 1)"
      using True by (subst clear_loop.simps) simp
    also have "\<dots> = take (i + 1) (h[i := 0]) @ replicate (5 - (i + 1)) 0"
      using "1.IH" [OF True] True "1.prems" by simp
    also have "take (i + 1) (h[i := 0]) = take i h @ [0]"
      using True "1.prems" by (simp add: take_Suc_conv_app_nth)
    also have "(take i h @ [0]) @ replicate (5 - (i + 1)) 0 = take i h @ replicate (5 - i) 0"
      using True by (simp add: Suc_diff_Suc replicate_append_same flip: replicate_Suc)
    finally show ?thesis .
  next
    case False
    then have "i = 5" using "1.prems" by simp
    then show ?thesis using "1.prems" by (subst clear_loop.simps) simp
  qed
qed

lemma clear_loop_wf: "length h = 5 \<Longrightarrow> clear_loop h 0 = [0, 0, 0, 0, 0]"
  by (simp add: clear_loop_take numeral_eq_Suc)

section \<open>Facts about updateAdaptiveDebounce\<close>

lemma updateAdaptiveDebounce_cases:
  "updateAdaptiveDebounce s =
     (if 2 \<le> fst (history_loop (pulseHistory s) 0 0 0)
      then Inr (s\<lparr>currentDebounceTime :=
             smooth (currentDebounceTime s)
               (clamp_debounce (newDebounce
                  (averageInterval (snd (history_loop (pulseHistory s) 0 0 0))
                     (fst (history_loop (pulseHistory s) 0 0 0)))))\<rparr>)
      else Inr s)"
proof -
  obtain vc sm where e: "history_loop (pulseHistory s) 0 0 0 = (vc, sm)"
    by (cases "history_loop (pulseHistory s) 0 0 0")
  have r: "vc \<le> 5" using validCount_range [OF e] by simp
  show ?thesis
    using word_of_int_validCount [OF _ r]
    by (simp add: updateAdaptiveDebounce_def e)
qed

lemma updateAdaptiveDebounce_frame:
  "\<exists>d. updateAdaptiveDebounce s = Inr (s\<lparr>currentDebounceTime := d\<rparr>)"
proof (cases "2 \<le> fst (history_loop (pulseHistory s) 0 0 0)")
  case True
  then have "updateAdaptiveDebounce s = Inr (s\<lparr>currentDebounceTime :=
             smooth (currentDebounceTime s)
               (clamp_debounce (newDebounce
                  (averageInterval (snd (history_loop (pulseHistory s) 0 0 0))
                     (fst (history_loop (pulseHistory s) 0 0 0)))))\<rparr>)"
    by (simp add: updateAdaptiveDebounce_cases)
  then show ?thesis by (rule exI)
next
  case False
  then have "updateAdaptiveDebounce s = Inr (s\<lparr>currentDebounceTime := currentDebounceTime s\<rparr>)"
    by (simp add: updateAdaptiveDebounce_cases)
  then show ?thesis by (rule exI)
qed

lemma clamp_debounce_range:
  "DEBOUNCE_TIME_US_MIN \<le> clamp_debounce d \<and> clamp_debounce d \<le> DEBOUNCE_TIME_US_MAX"
  by (simp add: clamp_debounce_def DEBOUNCE_TIME_US_MIN_def DEBOUNCE_TIME_US_MAX_def
      word_le_nat_alt word_less_nat_alt)

lemma smooth_unat:
  assumes "unat t \<le> 5000" and "unat c \<le> 5000"
  shows "unat (smooth t c) = (unat t * 7 + unat c * 3) div 10"
proof -
  have a: "unat (t * 7) = unat t * 7"
    using assms(1) by (simp add: unat_word_ariths)
  have b: "unat (c * 3) = unat c * 3"
    using assms(2) by (simp add: unat_word_ariths)
  have "unat (t * 7 + c * 3) = unat t * 7 + unat c * 3"
    using assms by (simp add: unat_word_ariths(1) a b)
  then show ?thesis
    by (simp add: smooth_def unat_div)
qed

lemma smooth_bounds:
  assumes "DEBOUNCE_TIME_US_MIN \<le> t" "t \<le> DEBOUNCE_TIME_US_MAX"
    "DEBOUNCE_TIME_US_MIN \<le> c" "c \<le> DEBOUNCE_TIME_US_MAX"
  shows "DEBOUNCE_TIME_US_MIN \<le> smooth t c \<and> smooth t c \<le> DEBOUNCE_TIME_US_MAX"
proof -
  have n: "100 \<le> unat t" "unat t \<le> 5000" "100 \<le> unat c" "unat c \<le> 5000"
    using assms
    by (simp_all add: word_le_nat_alt DEBOUNCE_TIME_US_MIN_def DEBOUNCE_TIME_US_MAX_def)
  have "unat (smooth t c) = (unat t * 7 + unat c * 3) div 10"
    using n by (simp add: smooth_unat)
  then have "100 \<le> unat (smooth t c) \<and> unat (smooth t c) \<le> 5000"
    using n by arith
  then show ?thesis
    by (simp add: word_le_nat_alt DEBOUNCE_TIME_US_MIN_def DEBOUNCE_TIME_US_MAX_def)
qed

section \<open>Properties of updateAdaptiveDebounce\<close>

text \<open>
  Claim C10. In \<^verbatim>\<open>updateAdaptiveDebounce\<close> the division \<^verbatim>\<open>sum / validCount\<close> is evaluated
  only under the guard \<^verbatim>\<open>validCount >= 2\<close>, and the loop leaves \<^verbatim>\<open>validCount\<close> between 0
  and 5, so the divisor is never zero: for every state, whatever the history holds, the
  function does not fault with a division by zero and returns a state.
\<close>

theorem updateAdaptiveDebounce_total:
  "updateAdaptiveDebounce s \<noteq> Inl DivideByZero \<and> (\<exists>s'. updateAdaptiveDebounce s = Inr s')"
proof -
  obtain d where "updateAdaptiveDebounce s = Inr (s\<lparr>currentDebounceTime := d\<rparr>)"
    using updateAdaptiveDebounce_frame by blast
  then show ?thesis by simp
qed

text \<open>
  Claim C7. For every history and every prior threshold: if fewer than two history
  entries are non-zero, the threshold after \<^verbatim>\<open>updateAdaptiveDebounce\<close> equals the threshold
  before it (the whole state is unchanged).
\<close>

theorem updateAdaptiveDebounce_insufficient:
  assumes "wf_state s" and "valid_count (pulseHistory s) < 2"
  shows "\<exists>s'. updateAdaptiveDebounce s = Inr s' \<and> currentDebounceTime s' = currentDebounceTime s
           \<and> s' = s"
proof -
  have "history_loop (pulseHistory s) 0 0 0
          = (int (valid_count (pulseHistory s)), sum_list (pulseHistory s))"
    using assms(1) by (simp add: wf_state_def history_loop_wf)
  then show ?thesis
    using assms(2) by (simp add: updateAdaptiveDebounce_cases)
qed

theorem updateAdaptiveDebounce_insufficient_witness:
  "wf_state (initial_state\<lparr>pulseHistory := [1500, 0, 0, 0, 0]\<rparr>) \<and>
   valid_count (pulseHistory (initial_state\<lparr>pulseHistory := [1500, 0, 0, 0, 0]\<rparr>)) < 2 \<and>
   (\<exists>s'. updateAdaptiveDebounce (initial_state\<lparr>pulseHistory := [1500, 0, 0, 0, 0]\<rparr>) = Inr s' \<and>
      currentDebounceTime s' = 1000)"
proof -
  let ?s = "initial_state\<lparr>pulseHistory := [1500, 0, 0, 0, 0]\<rparr>"
  have w: "wf_state ?s" by (simp add: wf_state_def)
  have v: "valid_count (pulseHistory ?s) < 2" by (simp add: valid_count_def)
  have "currentDebounceTime ?s = 1000"
    by (simp add: initial_state_def DEBOUNCE_TIME_US_DEFAULT_def)
  then show ?thesis
    using updateAdaptiveDebounce_insufficient [OF w v] w v by auto
qed

text \<open>
  Claim C1, as amended. With the history \<open>[1000, 1000, 1000, 1000, 1000]\<close> and a prior
  threshold of 1000, \<^verbatim>\<open>updateAdaptiveDebounce\<close> computes the sum 5000 over 5 valid entries,
  the average 1000, the candidate 83, clamps it up to \<open>DEBOUNCE_TIME_US_MIN = 100\<close>, and
  leaves the blended threshold \<open>(1000 * 7 + 100 * 3) div 10 = 730\<close> (the claim's 790 is
  not the value of that expression).
\<close>

theorem updateAdaptiveDebounce_example:
  "history_loop
     (pulseHistory (s\<lparr>pulseHistory := [1000, 1000, 1000, 1000, 1000],
                       currentDebounceTime := 1000\<rparr>)) 0 0 0 = (5, 5000) \<and>
   averageInterval 5000 5 = 1000 \<and>
   newDebounce 1000 = 83 \<and>
   clamp_debounce 83 = DEBOUNCE_TIME_US_MIN \<and> DEBOUNCE_TIME_US_MIN = 100 \<and>
   smooth 1000 100 = 730 \<and>
   updateAdaptiveDebounce
     (s\<lparr>pulseHistory := [1000, 1000, 1000, 1000, 1000], currentDebounceTime := 1000\<rparr>)
     = Inr (s\<lparr>pulseHistory := [1000, 1000, 1000, 1000, 1000], currentDebounceTime := 730\<rparr>)"
proof -
  have l: "history_loop [1000, 1000, 1000, 1000, 1000] 0 0 0 = (5, 5000)"
    by (simp add: history_loop_wf valid_count_def)
  have a: "averageInterval 5000 5 = 1000"
    by (simp add: averageInterval_def)
  have n: "newDebounce 1000 = 83"
    by (simp add: newDebounce_def)
  have c: "clamp_debounce 83 = 100"
    by (simp add: clamp_debounce_def DEBOUNCE_TIME_US_MIN_def)
  have m: "smooth 1000 100 = 730"
    by (simp add: smooth_def)
  show ?thesis
    by (simp add: updateAdaptiveDebounce_cases l a n c m DEBOUNCE_TIME_US_MIN_def)
qed

text \<open>
  The value stated in claim C1 is not the one the code computes: on the claim's input the
  resulting threshold is 730 and not 790.
\<close>

theorem updateAdaptiveDebounce_example_not_790:
  "updateAdaptiveDebounce
     (initial_state\<lparr>pulseHistory := [1000, 1000, 1000, 1000, 1000],
                    currentDebounceTime := 1000\<rparr>)
     = Inr (initial_state\<lparr>pulseHistory := [1000, 1000, 1000, 1000, 1000],
                          currentDebounceTime := 730\<rparr>) \<and>
   updateAdaptiveDebounce
     (initial_state\<lparr>pulseHistory := [1000, 1000, 1000, 1000, 1000],
                    currentDebounceTime := 1000\<rparr>)
     \<noteq> Inr (initial_state\<lparr>pulseHistory := [1000, 1000, 1000, 1000, 1000],
                          currentDebounceTime := 790\<rparr>) \<and>
   smooth 1000 100 \<noteq> 790"
proof -
  have l: "history_loop [1000, 1000, 1000, 1000, 1000] 0 0 0 = (5, 5000)"
    by (simp add: history_loop_wf valid_count_def)
  have a: "averageInterval 5000 5 = 1000"
    by (simp add: averageInterval_def)
  have n: "newDebounce 1000 = 83"
    by (simp add: newDebounce_def)
  have c: "clamp_debounce 83 = 100"
    by (simp add: clamp_debounce_def DEBOUNCE_TIME_US_MIN_def)
  have m: "smooth 1000 100 = 730"
    by (simp add: smooth_def)
  show ?thesis
    by (simp add: updateAdaptiveDebounce_cases l a n c m initial_state_def)
qed

section \<open>Properties of resetCounter and autoResetCounter\<close>

lemma wf_resetCounter: "wf_state s \<Longrightarrow> wf_state (resetCounter s now)"
  by (simp add: resetCounter_def wf_state_def clear_loop_wf Let_def)

lemma wf_autoResetCounter: "wf_state s \<Longrightarrow> wf_state (autoResetCounter s)"
  by (simp add: autoResetCounter_def wf_state_def clear_loop_wf)

lemma capture_debounce_resetCounter:
  "wf_state s \<Longrightarrow>
   capture_debounce (resetCounter s now)
     = (0, 0, 0, False, DEBOUNCE_TIME_US_DEFAULT, [0, 0, 0, 0, 0], 0)"
  by (simp add: capture_debounce_def resetCounter_def wf_state_def clear_loop_wf Let_def)

lemma capture_debounce_autoResetCounter:
  "wf_state s \<Longrightarrow>
   capture_debounce (autoResetCounter s)
     = (0, 0, 0, False, DEBOUNCE_TIME_US_DEFAULT, [0, 0, 0, 0, 0], 0)"
  by (simp add: capture_debounce_def autoResetCounter_def wf_state_def clear_loop_wf)

text \<open>
  Claim C6. After \<^verbatim>\<open>resetCounter\<close>, and after \<^verbatim>\<open>autoResetCounter\<close>, from any prior state:
  the pulse count, the last timestamp and the last interval are 0, the pending flag is
  false, the threshold is \<open>DEBOUNCE_TIME_US_DEFAULT\<close>, the write index is 0 and every one of
  the five history slots is zero.
\<close>

theorem reset_clears:
  assumes "wf_state s"
  shows "pulseCount (resetCounter s now) = 0 \<and>
         lastPulseTime (resetCounter s now) = 0 \<and>
         pulseInterval (resetCounter s now) = 0 \<and>
         newPulseReceived (resetCounter s now) = False \<and>
         currentDebounceTime (resetCounter s now) = DEBOUNCE_TIME_US_DEFAULT \<and>
         historyIndex (resetCounter s now) = 0 \<and>
         pulseHistory (resetCounter s now) = [0, 0, 0, 0, 0] \<and>
         pulseCount (autoResetCounter s) = 0 \<and>
         lastPulseTime (autoResetCounter s) = 0 \<and>
         pulseInterval (autoResetCounter s) = 0 \<and>
         newPulseReceived (autoResetCounter s) = False \<and>
         currentDebounceTime (autoResetCounter s) = DEBOUNCE_TIME_US_DEFAULT \<and>
         historyIndex (autoResetCounter s) = 0 \<and>
         pulseHistory (autoResetCounter s) = [0, 0, 0, 0, 0]"
  using assms
  by (simp add: resetCounter_def autoResetCounter_def wf_state_def clear_loop_wf Let_def)

theorem reset_clears_witness:
  "wf_state busy_state \<and>
   capture_debounce (resetCounter busy_state 60000)
     = (0, 0, 0, False, 1000, [0, 0, 0, 0, 0], 0) \<and>
   capture_debounce (autoResetCounter busy_state)
     = (0, 0, 0, False, 1000, [0, 0, 0, 0, 0], 0)"
proof -
  have w: "wf_state busy_state" by (simp add: wf_state_def busy_state_def)
  show ?thesis
    using reset_clears [OF w, of 60000] w
    by (simp add: capture_debounce_def DEBOUNCE_TIME_US_DEFAULT_def)
qed

text \<open>
  Claim C9. Reset is idempotent on the capture and debounce state: applying
  \<^verbatim>\<open>resetCounter\<close> twice in succession (at any two readings of \<^verbatim>\<open>millis()\<close>) yields the same
  pulse count, last timestamp, last interval, pending flag, threshold, history and write
  index as applying it once; the same holds for \<^verbatim>\<open>autoResetCounter\<close> and for the two
  routines applied one after the other.
\<close>

theorem reset_idempotent:
  assumes "wf_state s"
  shows "capture_debounce (resetCounter (resetCounter s now) now')
           = capture_debounce (resetCounter s now) \<and>
         capture_debounce (autoResetCounter (autoResetCounter s))
           = capture_debounce (autoResetCounter s) \<and>
         capture_debounce (autoResetCounter (resetCounter s now))
           = capture_debounce (resetCounter s now) \<and>
         capture_debounce (resetCounter (autoResetCounter s) now')
           = capture_debounce (autoResetCounter s)"
  using assms
  by (simp add: capture_debounce_resetCounter capture_debounce_autoResetCounter
      wf_resetCounter wf_autoResetCounter)

theorem reset_idempotent_witness:
  "wf_state busy_state \<and>
   capture_debounce (resetCounter (resetCounter busy_state 60000) 60010)
     = capture_debounce (resetCounter busy_state 60000)"
proof -
  have w: "wf_state busy_state" by (simp add: wf_state_def busy_state_def)
  show ?thesis
    using reset_idempotent [OF w, of 60000 60010] w by simp
qed

section \<open>Properties of pulseInterrupt\<close>

lemma pulseInterrupt_bounce:
  assumes "t - lastPulseTime s \<le> currentDebounceTime s"
  shows "pulseInterrupt s t = Inr s"
proof -
  have "\<not> currentDebounceTime s < t - lastPulseTime s"
    using assms by (simp add: not_less)
  then show ?thesis by (simp add: pulseInterrupt_def)
qed

lemma pulseInterrupt_accept:
  assumes "currentDebounceTime s < t - lastPulseTime s"
    and "0 \<le> historyIndex s" and "historyIndex s < 5"
  shows "\<exists>d. pulseInterrupt s t =
           Inr (s\<lparr>pulseInterval := t - lastPulseTime s, lastPulseTime := t,
                  pulseHistory := (pulseHistory s)[nat (historyIndex s) := t - lastPulseTime s],
                  historyIndex := (historyIndex s + 1) mod 5,
                  currentDebounceTime := d,
                  pulseCount := pulseCount s + 1, newPulseReceived := True\<rparr>) \<and>
           updateAdaptiveDebounce
             (s\<lparr>pulseInterval := t - lastPulseTime s, lastPulseTime := t,
                pulseHistory := (pulseHistory s)[nat (historyIndex s) := t - lastPulseTime s],
                historyIndex := (historyIndex s + 1) mod 5\<rparr>)
           = Inr (s\<lparr>pulseInterval := t - lastPulseTime s, lastPulseTime := t,
                pulseHistory := (pulseHistory s)[nat (historyIndex s) := t - lastPulseTime s],
                historyIndex := (historyIndex s + 1) mod 5,
                currentDebounceTime := d\<rparr>)"
proof -
  let ?m = "s\<lparr>pulseInterval := t - lastPulseTime s, lastPulseTime := t,
                pulseHistory := (pulseHistory s)[nat (historyIndex s) := t - lastPulseTime s],
                historyIndex := (historyIndex s + 1) mod 5\<rparr>"
  obtain d where d: "updateAdaptiveDebounce ?m = Inr (?m\<lparr>currentDebounceTime := d\<rparr>)"
    using updateAdaptiveDebounce_frame [of ?m] by blast
  have "pulseInterrupt s t =
          Inr (?m\<lparr>currentDebounceTime := d,
                 pulseCount := pulseCount s + 1, newPulseReceived := True\<rparr>)"
    using assms d by (simp add: pulseInterrupt_def Let_def)
  then show ?thesis using d by auto
qed

lemma pulseInterrupt_changes:
  assumes "currentDebounceTime s < t - lastPulseTime s"
  shows "pulseInterrupt s t \<noteq> Inr s"
proof (cases "0 \<le> historyIndex s \<and> historyIndex s < 5")
  case True
  then obtain d where
    "pulseInterrupt s t =
       Inr (s\<lparr>pulseInterval := t - lastPulseTime s, lastPulseTime := t,
              pulseHistory := (pulseHistory s)[nat (historyIndex s) := t - lastPulseTime s],
              historyIndex := (historyIndex s + 1) mod 5,
              currentDebounceTime := d,
              pulseCount := pulseCount s + 1, newPulseReceived := True\<rparr>)"
    using pulseInterrupt_accept [OF assms] by blast
  then have "\<And>s'. pulseInterrupt s t = Inr s' \<Longrightarrow> pulseCount s' = pulseCount s + 1"
    by simp
  then show ?thesis by fastforce
next
  case False
  then have "pulseInterrupt s t = Inl IndexOutOfBounds"
    using assms by (auto simp: pulseInterrupt_def Let_def)
  then show ?thesis by simp
qed

text \<open>
  Claim C4. For every call of \<^verbatim>\<open>pulseInterrupt\<close> at a timestamp whose interval since the
  previous accepted edge lies in \<open>[0, currentDebounceTime]\<close>, the whole state is unchanged:
  count, last timestamp, last interval, pending flag, history, write index and threshold
  are the same before and after the call.
\<close>

theorem bounce_leaves_state:
  assumes "t - lastPulseTime s \<le> currentDebounceTime s"
  shows "pulseInterrupt s t = Inr s"
  using assms by (rule pulseInterrupt_bounce)

theorem bounce_leaves_state_witness:
  "(90700 :: u32) - lastPulseTime busy_state \<le> currentDebounceTime busy_state \<and>
   pulseInterrupt busy_state 90700 = Inr busy_state"
proof -
  have h: "(90700 :: u32) - lastPulseTime busy_state \<le> currentDebounceTime busy_state"
    by (simp add: busy_state_def)
  show ?thesis using bounce_leaves_state [OF h] h by simp
qed

text \<open>
  Claim C2, as amended. \<^verbatim>\<open>pulseInterrupt\<close> discards an edge (returns the state unchanged)
  exactly when the interval \<open>currentTime - lastPulseTime\<close>, computed in unsigned 32-bit
  arithmetic, is at most the current threshold. A zero \<^verbatim>\<open>lastPulseTime\<close> is not treated
  specially: then the interval is the timestamp itself, and the edge is discarded exactly
  when the timestamp is at most the threshold.
\<close>

theorem no_zero_sentinel:
  "(pulseInterrupt s t = Inr s) = (t - lastPulseTime s \<le> currentDebounceTime s) \<and>
   (lastPulseTime s = 0 \<longrightarrow> (pulseInterrupt s t = Inr s) = (t \<le> currentDebounceTime s))"
proof -
  have "(pulseInterrupt s t = Inr s) = (t - lastPulseTime s \<le> currentDebounceTime s)"
  proof (cases "t - lastPulseTime s \<le> currentDebounceTime s")
    case True
    then show ?thesis by (simp add: pulseInterrupt_bounce)
  next
    case False
    then have "currentDebounceTime s < t - lastPulseTime s" by (simp add: not_le)
    then show ?thesis using False by (simp add: pulseInterrupt_changes)
  qed
  then show ?thesis by simp
qed

theorem no_zero_sentinel_witness:
  "lastPulseTime initial_state = 0 \<and>
   (pulseInterrupt initial_state 500 = Inr initial_state) =
     ((500 :: u32) \<le> currentDebounceTime initial_state) \<and>
   (500 :: u32) \<le> currentDebounceTime initial_state"
proof -
  have z: "lastPulseTime initial_state = 0" by (simp add: initial_state_def)
  have c: "(500 :: u32) \<le> currentDebounceTime initial_state"
    by (simp add: initial_state_def DEBOUNCE_TIME_US_DEFAULT_def)
  show ?thesis
    using no_zero_sentinel [of initial_state 500] z c by simp
qed

text \<open>
  Claim C2 fails as stated: in the initial state, where \<^verbatim>\<open>lastPulseTime\<close> is zero, an edge
  at 500 microseconds is discarded, the threshold being 1000.
\<close>

theorem first_edge_discarded:
  "lastPulseTime initial_state = 0 \<and> pulseInterrupt initial_state 500 = Inr initial_state"
  by (simp add: pulseInterrupt_def initial_state_def DEBOUNCE_TIME_US_DEFAULT_def)

section \<open>The invariant of the debounce state\<close>

lemma inv_updateAdaptiveDebounce:
  assumes "debounce_inv s"
  shows "\<exists>s'. updateAdaptiveDebounce s = Inr s' \<and> debounce_inv s' \<and>
           pulseHistory s' = pulseHistory s"
proof (cases "2 \<le> fst (history_loop (pulseHistory s) 0 0 0)")
  case True
  let ?c = "clamp_debounce (newDebounce
                  (averageInterval (snd (history_loop (pulseHistory s) 0 0 0))
                     (fst (history_loop (pulseHistory s) 0 0 0))))"
  have u: "updateAdaptiveDebounce s
             = Inr (s\<lparr>currentDebounceTime := smooth (currentDebounceTime s) ?c\<rparr>)"
    using True by (simp add: updateAdaptiveDebounce_cases)
  have "DEBOUNCE_TIME_US_MIN \<le> smooth (currentDebounceTime s) ?c \<and>
        smooth (currentDebounceTime s) ?c \<le> DEBOUNCE_TIME_US_MAX"
    using assms clamp_debounce_range [of "newDebounce
                  (averageInterval (snd (history_loop (pulseHistory s) 0 0 0))
                     (fst (history_loop (pulseHistory s) 0 0 0)))"]
    by (intro smooth_bounds) (simp_all add: debounce_inv_def)
  then show ?thesis using assms u by (simp add: debounce_inv_def)
next
  case False
  then show ?thesis using assms by (simp add: updateAdaptiveDebounce_cases)
qed

lemma inv_pulseInterrupt:
  assumes "wf_state s" "debounce_inv s"
  shows "\<exists>s'. pulseInterrupt s t = Inr s' \<and> wf_state s' \<and> debounce_inv s'"
proof (cases "currentDebounceTime s < t - lastPulseTime s")
  case True
  let ?m = "s\<lparr>pulseInterval := t - lastPulseTime s, lastPulseTime := t,
                pulseHistory := (pulseHistory s)[nat (historyIndex s) := t - lastPulseTime s],
                historyIndex := (historyIndex s + 1) mod 5\<rparr>"
  have i: "0 \<le> historyIndex s" "historyIndex s < 5"
    using assms(2) by (simp_all add: debounce_inv_def)
  have "debounce_inv ?m" using assms(2) by (simp add: debounce_inv_def)
  then obtain s' where s': "updateAdaptiveDebounce ?m = Inr s'" "debounce_inv s'"
    "pulseHistory s' = pulseHistory ?m"
    using inv_updateAdaptiveDebounce by blast
  have "pulseInterrupt s t = Inr (s'\<lparr>pulseCount := pulseCount s' + 1, newPulseReceived := True\<rparr>)"
    using True i s'(1) by (simp add: pulseInterrupt_def Let_def)
  moreover have "wf_state (s'\<lparr>pulseCount := pulseCount s' + 1, newPulseReceived := True\<rparr>)"
    using assms(1) s'(3) by (simp add: wf_state_def)
  moreover have "debounce_inv (s'\<lparr>pulseCount := pulseCount s' + 1, newPulseReceived := True\<rparr>)"
    using s'(2) by (simp add: debounce_inv_def)
  ultimately show ?thesis by blast
next
  case False
  then show ?thesis using assms by (simp add: pulseInterrupt_bounce not_less)
qed

lemma inv_resetCounter: "debounce_inv (resetCounter s now)"
  by (simp add: resetCounter_def debounce_inv_def Let_def DEBOUNCE_TIME_US_DEFAULT_def
      DEBOUNCE_TIME_US_MIN_def DEBOUNCE_TIME_US_MAX_def)

lemma inv_autoResetCounter: "debounce_inv (autoResetCounter s)"
  by (simp add: autoResetCounter_def debounce_inv_def DEBOUNCE_TIME_US_DEFAULT_def
      DEBOUNCE_TIME_US_MIN_def DEBOUNCE_TIME_US_MAX_def)

text \<open>
  Claim C3. Every operation on the debounce state preserves the invariant that the
  threshold lies within \<open>[DEBOUNCE_TIME_US_MIN, DEBOUNCE_TIME_US_MAX]\<close> and the write index
  within \<open>[0, 5)\<close>: from a state that satisfies it, \<^verbatim>\<open>pulseInterrupt\<close> at any timestamp and
  \<^verbatim>\<open>updateAdaptiveDebounce\<close> return a state that satisfies it (the truncated 70/30 blend of
  two values of the range stays in the range), and so do both reset routines.
\<close>

theorem invariant_preserved:
  assumes "wf_state s" and "debounce_inv s"
  shows "(\<exists>s'. pulseInterrupt s t = Inr s' \<and> wf_state s' \<and> debounce_inv s') \<and>
         (\<exists>s'. updateAdaptiveDebounce s = Inr s' \<and> wf_state s' \<and> debounce_inv s') \<and>
         wf_state (resetCounter s now) \<and> debounce_inv (resetCounter s now) \<and>
         wf_state (autoResetCounter s) \<and> debounce_inv (autoResetCounter s)"
proof -
  obtain s' where "updateAdaptiveDebounce s = Inr s'" "debounce_inv s'"
    "pulseHistory s' = pulseHistory s"
    using inv_updateAdaptiveDebounce [OF assms(2)] by blast
  then have "\<exists>s'. updateAdaptiveDebounce s = Inr s' \<and> wf_state s' \<and> debounce_inv s'"
    using assms(1) by (simp add: wf_state_def)
  then show ?thesis
    using inv_pulseInterrupt [OF assms, of t] assms(1)
    by (simp add: wf_resetCounter wf_autoResetCounter inv_resetCounter inv_autoResetCounter)
qed

theorem invariant_preserved_witness:
  "wf_state busy_state \<and> debounce_inv busy_state \<and>
   (\<exists>s'. pulseInterrupt busy_state 102000 = Inr s' \<and> wf_state s' \<and> debounce_inv s') \<and>
   (\<exists>s'. updateAdaptiveDebounce busy_state = Inr s' \<and> wf_state s' \<and> debounce_inv s') \<and>
   debounce_inv (resetCounter busy_state 60000) \<and>
   debounce_inv (autoResetCounter busy_state)"
proof -
  have w: "wf_state busy_state" by (simp add: wf_state_def busy_state_def)
  have i: "debounce_inv busy_state"
    by (simp add: debounce_inv_def busy_state_def DEBOUNCE_TIME_US_MIN_def
        DEBOUNCE_TIME_US_MAX_def)
  show ?thesis
    using invariant_preserved [OF w i, of 102000 60000] w i by simp
qed

lemma initial_state_inv: "wf_state initial_state \<and> debounce_inv initial_state"
  by (simp add: wf_state_def debounce_inv_def initial_state_def DEBOUNCE_TIME_US_DEFAULT_def
      DEBOUNCE_TIME_US_MIN_def DEBOUNCE_TIME_US_MAX_def)

section \<open>Sequences of accepted edges\<close>

lemma unat_count_add:
  assumes "unat (a :: u32) + n < 2 ^ 32"
  shows "unat (a + of_nat n) = unat a + n"
proof -
  have n: "n < 2 ^ 32" using assms by simp
  have "unat (of_nat n :: u32) = n"
    using n by (simp add: unat_of_nat)
  then show ?thesis
    using assms by (simp add: unat_word_ariths(1))
qed

lemma accepted_edge_step:
  assumes "wf_state s" and "0 \<le> historyIndex s" and "historyIndex s < 5"
    and "currentDebounceTime s < t - lastPulseTime s"
  shows "\<exists>s'. pulseInterrupt s t = Inr s' \<and> accepted_edge s t s' \<and> wf_state s' \<and>
           0 \<le> historyIndex s' \<and> historyIndex s' < 5"
proof -
  let ?m = "s\<lparr>pulseInterval := t - lastPulseTime s, lastPulseTime := t,
                pulseHistory := (pulseHistory s)[nat (historyIndex s) := t - lastPulseTime s],
                historyIndex := (historyIndex s + 1) mod 5\<rparr>"
  obtain d where p: "pulseInterrupt s t =
           Inr (?m\<lparr>currentDebounceTime := d,
                  pulseCount := pulseCount s + 1, newPulseReceived := True\<rparr>)"
    and u: "updateAdaptiveDebounce ?m = Inr (?m\<lparr>currentDebounceTime := d\<rparr>)"
    using pulseInterrupt_accept [OF assms(4) assms(2) assms(3)] by auto
  let ?b = "?m\<lparr>currentDebounceTime := d,
                  pulseCount := pulseCount s + 1, newPulseReceived := True\<rparr>"
  have "accepted_edge s t ?b"
    using u by (simp add: accepted_edge_def)
  moreover have "wf_state ?b" using assms(1) by (simp add: wf_state_def)
  moreover have "0 \<le> historyIndex ?b \<and> historyIndex ?b < 5" by simp
  ultimately show ?thesis using p by blast
qed

text \<open>
  Claim C5. For every sequence of edges in which each edge's interval since the last
  accepted edge strictly exceeds the threshold in effect at its arrival, every edge is
  accepted: it adds 1 to \<^verbatim>\<open>pulseCount\<close> (in 32-bit arithmetic; as a number too, as long
  as the counter does not pass \<open>2 ^ 32 - 1\<close>), sets \<^verbatim>\<open>pulseInterval\<close> to the interval and
  \<^verbatim>\<open>lastPulseTime\<close> to the timestamp, writes the interval into the history slot at
  \<^verbatim>\<open>historyIndex\<close>, advances \<^verbatim>\<open>historyIndex\<close> modulo 5, runs \<^verbatim>\<open>updateAdaptiveDebounce\<close> on
  the result and raises the pending flag.
\<close>

theorem accepted_edges_counted:
  assumes "wf_state s" and "0 \<le> historyIndex s" and "historyIndex s < 5"
    and "exceeds_threshold s ts"
  shows "\<exists>ss. pulseInterrupt_seq s ts = Inr ss \<and> length ss = length ts \<and>
           (\<forall>k<length ts. accepted_edge ((s # ss) ! k) (ts ! k) (ss ! k)) \<and>
           pulseCount (last (s # ss)) = pulseCount s + of_nat (length ts) \<and>
           (unat (pulseCount s) + length ts < 2 ^ 32 \<longrightarrow>
              unat (pulseCount (last (s # ss))) = unat (pulseCount s) + length ts)"
proof -
  have "\<exists>ss. pulseInterrupt_seq s ts = Inr ss \<and> length ss = length ts \<and>
           (\<forall>k<length ts. accepted_edge ((s # ss) ! k) (ts ! k) (ss ! k)) \<and>
           pulseCount (last (s # ss)) = pulseCount s + of_nat (length ts)"
  using assms
proof (induction ts arbitrary: s)
  case Nil
  then show ?case by simp
next
  case (Cons t ts)
  have e: "currentDebounceTime s < t - lastPulseTime s"
    using Cons.prems(4) by simp
  obtain s1 where s1: "pulseInterrupt s t = Inr s1" "accepted_edge s t s1" "wf_state s1"
    "0 \<le> historyIndex s1" "historyIndex s1 < 5"
    using accepted_edge_step [OF Cons.prems(1) Cons.prems(2) Cons.prems(3) e] by blast
  have "exceeds_threshold s1 ts"
    using Cons.prems(4) s1(1) by simp
  then obtain ss where ss: "pulseInterrupt_seq s1 ts = Inr ss" "length ss = length ts"
    "\<forall>k<length ts. accepted_edge ((s1 # ss) ! k) (ts ! k) (ss ! k)"
    "pulseCount (last (s1 # ss)) = pulseCount s1 + of_nat (length ts)"
    using Cons.IH [OF s1(3) s1(4) s1(5)] by blast
  have a: "pulseInterrupt_seq s (t # ts) = Inr (s1 # ss)"
    using s1(1) ss(1) by simp
  have b: "\<forall>k<length (t # ts). accepted_edge ((s # s1 # ss) ! k) ((t # ts) ! k) ((s1 # ss) ! k)"
  proof (intro allI impI)
    fix k
    assume k: "k < length (t # ts)"
    show "accepted_edge ((s # s1 # ss) ! k) ((t # ts) ! k) ((s1 # ss) ! k)"
    proof (cases k)
      case 0
      then show ?thesis using s1(2) by simp
    next
      case (Suc j)
      then have "j < length ts" using k by simp
      then show ?thesis using ss(3) Suc by simp
    qed
  qed
  have "pulseCount s1 = pulseCount s + 1"
    using s1(2) by (simp add: accepted_edge_def)
  then have c: "pulseCount (last (s # s1 # ss)) = pulseCount s + of_nat (length (t # ts))"
    using ss(4) by simp
  show ?case using a b c ss(2) by auto
qed
  then show ?thesis by (metis unat_count_add)
qed

theorem accepted_edges_counted_witness:
  "wf_state initial_state \<and> exceeds_threshold initial_state [1500, 3100, 4700] \<and>
   (\<exists>ss. pulseInterrupt_seq initial_state [1500, 3100, 4700] = Inr ss \<and> length ss = 3 \<and>
      accepted_edge initial_state 1500 (ss ! 0) \<and>
      pulseCount (last ss) = 3 \<and> unat (pulseCount (last ss)) = 3)"
proof -
  have w: "wf_state initial_state" by (simp add: wf_state_def initial_state_def)
  have i: "0 \<le> historyIndex initial_state" "historyIndex initial_state < 5"
    by (simp_all add: initial_state_def)
  have x: "exceeds_threshold initial_state [1500, 3100, 4700]" by code_simp
  obtain ss where ss: "pulseInterrupt_seq initial_state [1500, 3100, 4700] = Inr ss"
    "length ss = length [1500 :: u32, 3100, 4700]"
    "\<forall>k<length [1500 :: u32, 3100, 4700].
        accepted_edge ((initial_state # ss) ! k) ([1500, 3100, 4700] ! k) (ss ! k)"
    "pulseCount (last (initial_state # ss))
       = pulseCount initial_state + of_nat (length [1500 :: u32, 3100, 4700])"
    using accepted_edges_counted [OF w i x] by blast
  have n: "ss \<noteq> []" using ss(2) by auto
  have "accepted_edge initial_state 1500 (ss ! 0)" using ss(3) by fastforce
  moreover have "pulseCount (last ss) = 3"
    using ss(4) n by (simp add: initial_state_def)
  ultimately show ?thesis using w x ss(1) ss(2) by auto
qed

section \<open>Repeated recomputation on a constant history\<close>






text \<open>One step of the blend against a fixed candidate, on the unsigned values.\<close>

lemma smooth_above:
  assumes "unat t \<le> 5000" "unat c \<le> 5000" "c \<le> t"
  shows "c \<le> smooth t c \<and> smooth t c \<le> t"
proof -
  have "unat c \<le> unat t" using assms(3) by (simp add: word_le_nat_alt)
  then have "unat c \<le> (unat t * 7 + unat c * 3) div 10 \<and>
             (unat t * 7 + unat c * 3) div 10 \<le> unat t"
    by arith
  then show ?thesis using assms(1,2) by (simp add: word_le_nat_alt smooth_unat)
qed

lemma smooth_below:
  assumes "unat t \<le> 5000" "unat c \<le> 5000" "t \<le> c"
  shows "t \<le> smooth t c \<and> smooth t c \<le> c"
proof -
  have "unat t \<le> unat c" using assms(3) by (simp add: word_le_nat_alt)
  then have "unat t \<le> (unat t * 7 + unat c * 3) div 10 \<and>
             (unat t * 7 + unat c * 3) div 10 \<le> unat c"
    by arith
  then show ?thesis using assms(1,2) by (simp add: word_le_nat_alt smooth_unat)
qed



lemma smooth_le_5000:
  assumes "unat t \<le> 5000" "unat c \<le> 5000"
  shows "unat (smooth t c) \<le> 5000"
  using assms by (simp add: smooth_unat)

lemma iter_le_5000:
  assumes "unat t \<le> 5000" "unat c \<le> 5000"
  shows "unat (((\<lambda>x. smooth x c) ^^ n) t) \<le> 5000"
  using assms by (induction n) (simp_all add: smooth_le_5000)

lemma iter_above:
  assumes "unat t \<le> 5000" "unat c \<le> 5000" "c \<le> t"
  shows "c \<le> ((\<lambda>x. smooth x c) ^^ n) t"
proof (induction n)
  case 0
  then show ?case using assms by simp
next
  case (Suc n)
  then show ?case
    using smooth_above [OF iter_le_5000 [OF assms(1,2), of n] assms(2)] by simp
qed

lemma iter_below:
  assumes "unat t \<le> 5000" "unat c \<le> 5000" "t \<le> c"
  shows "((\<lambda>x. smooth x c) ^^ n) t \<le> c"
proof (induction n)
  case 0
  then show ?case using assms by simp
next
  case (Suc n)
  then show ?case
    using smooth_below [OF iter_le_5000 [OF assms(1,2), of n] assms(2)] by simp
qed

lemma iter_monotone:
  assumes "unat t \<le> 5000" "unat c \<le> 5000"
  shows "(\<forall>n. ((\<lambda>x. smooth x c) ^^ Suc n) t \<le> ((\<lambda>x. smooth x c) ^^ n) t) \<or>
         (\<forall>n. ((\<lambda>x. smooth x c) ^^ n) t \<le> ((\<lambda>x. smooth x c) ^^ Suc n) t)"
proof (cases "c \<le> t")
  case True
  have "\<forall>n. ((\<lambda>x. smooth x c) ^^ Suc n) t \<le> ((\<lambda>x. smooth x c) ^^ n) t"
  proof
    fix n
    show "((\<lambda>x. smooth x c) ^^ Suc n) t \<le> ((\<lambda>x. smooth x c) ^^ n) t"
      using smooth_above [OF iter_le_5000 [OF assms, of n] assms(2)
          iter_above [OF assms True, of n]]
      by simp
  qed
  then show ?thesis by blast
next
  case False
  then have le: "t \<le> c" by simp
  have "\<forall>n. ((\<lambda>x. smooth x c) ^^ n) t \<le> ((\<lambda>x. smooth x c) ^^ Suc n) t"
  proof
    fix n
    show "((\<lambda>x. smooth x c) ^^ n) t \<le> ((\<lambda>x. smooth x c) ^^ Suc n) t"
      using smooth_below [OF iter_le_5000 [OF assms, of n] assms(2)
          iter_below [OF assms le, of n]]
      by simp
  qed
  then show ?thesis by blast
qed









end
